theory Spec2Isabelle
  imports Main "HOL-Library.Multiset"
begin

section \<open>JavaScript values\<close>

text \<open>
  The scripts under \<^verbatim>\<open>bin/\<close> handle whatever the YAML parsers return: scalars, sequences
  and mappings. A mapping is an association list in key order; a sequence carries its
  elements and the named properties that an assignment may attach to a JavaScript array.
  The scripts do no arithmetic: a number is given by the text the language prints for it
  (\<^verbatim>\<open>42\<close>, \<^verbatim>\<open>1.5\<close>, \<^verbatim>\<open>1e+21\<close>, \<^verbatim>\<open>NaN\<close>), which tells all they observe of it.
  Strings are lists of \<^typ>\<open>char\<close>.
\<close>

datatype jsval =
    JUndefined
  | JNull
  | JBool bool
  | JNum string
  | JStr string
  | JArr "jsval list" "(string \<times> jsval) list"
  | JObj "(string \<times> jsval) list"

text \<open>
  Exceptions of the scripts: the YAML parser rejecting a document, a \<^verbatim>\<open>TypeError\<close> of
  the language (a property of \<^verbatim>\<open>null\<close> or \<^verbatim>\<open>undefined\<close>, a call of something
  that is not a function, an object that cannot be converted to a string, an assignment to
  a property of a primitive in strict mode; the scripts are ES modules, hence strict), and
  a read of a file that is not there.
\<close>

datatype error = YAMLParseError | TypeError | ENOENT

text \<open>
  \<^verbatim>\<open>v.k\<close> for the property names the scripts read (\<^verbatim>\<open>name\<close>, \<^verbatim>\<open>id\<close>,
  \<^verbatim>\<open>metadata\<close>, \<^verbatim>\<open>category\<close>, \<^verbatim>\<open>source\<close>, \<^verbatim>\<open>repository\<close>, \<^verbatim>\<open>path\<close>): none
  of them is inherited from a prototype, so primitives answer \<^verbatim>\<open>undefined\<close>.
\<close>

fun get_prop :: "jsval \<Rightarrow> string \<Rightarrow> error + jsval" where
  "get_prop JUndefined k = Inl TypeError"
| "get_prop JNull k = Inl TypeError"
| "get_prop (JObj kvs) k = Inr (case map_of kvs k of None \<Rightarrow> JUndefined | Some v \<Rightarrow> v)"
| "get_prop (JArr xs ps) k = Inr (case map_of ps k of None \<Rightarrow> JUndefined | Some v \<Rightarrow> v)"
| "get_prop (JBool b) k = Inr JUndefined"
| "get_prop (JNum n) k = Inr JUndefined"
| "get_prop (JStr s) k = Inr JUndefined"

text \<open>Truthiness, as \<^verbatim>\<open>!v\<close> and \<^verbatim>\<open>&&\<close> test it.\<close>

fun truthy :: "jsval \<Rightarrow> bool" where
  "truthy JUndefined = False"
| "truthy JNull = False"
| "truthy (JBool b) = b"
| "truthy (JNum n) = (n \<noteq> ''0'' \<and> n \<noteq> ''NaN'')"
| "truthy (JStr s) = (s \<noteq> [])"
| "truthy (JArr xs ps) = True"
| "truthy (JObj kvs) = True"

text \<open>
  The conversion to a string of template literals and of \<^verbatim>\<open>localeCompare\<close>'s argument.
  For a mapping or a sequence the language looks up \<^verbatim>\<open>toString\<close>: the inherited method
  answers, unless the value has a key of that name. A parsed value under that key is not a
  function, and \<^verbatim>\<open>valueOf\<close> (inherited or not) yields no primitive, so the conversion
  throws. The inherited method of a sequence joins the converted elements with commas,
  \<^verbatim>\<open>null\<close> and \<^verbatim>\<open>undefined\<close> counting as empty, unless \<^verbatim>\<open>join\<close> is a key of it.
\<close>

fun ToString :: "jsval \<Rightarrow> error + string"
  and join :: "jsval list \<Rightarrow> error + string" where
  "ToString JUndefined = Inr ''undefined''"
| "ToString JNull = Inr ''null''"
| "ToString (JBool b) = Inr (if b then ''true'' else ''false'')"
| "ToString (JNum n) = Inr n"
| "ToString (JStr s) = Inr s"
| "ToString (JObj kvs) =
     (if map_of kvs ''toString'' \<noteq> None then Inl TypeError else Inr ''[object Object]'')"
| "ToString (JArr xs ps) =
     (if map_of ps ''toString'' \<noteq> None then Inl TypeError
      else if map_of ps ''join'' \<noteq> None then Inr ''[object Array]''
      else join xs)"
| "join [] = Inr []"
| "join (x # xs) =
     (case (if x = JUndefined \<or> x = JNull then Inr [] else ToString x) of
        Inl e \<Rightarrow> Inl e
      | Inr s \<Rightarrow>
          (if xs = [] then Inr s
           else (case join xs of Inl e \<Rightarrow> Inl e | Inr r \<Rightarrow> Inr (s @ '','' @ r))))"

text \<open>The decimal digits of a length.\<close>

fun digit_string :: "nat \<Rightarrow> string" where
  "digit_string n =
     (if n < 10 then [''0123456789'' ! n]
      else digit_string (n div 10) @ [''0123456789'' ! (n mod 10)])"

section \<open>The modes directory\<close>

text \<open>
  The directory \<^verbatim>\<open>modes/\<close> as \<^verbatim>\<open>readdirSync\<close> lists it: file names with their
  contents, in listing order. It is taken to exist and to hold regular, readable files.
\<close>

type_synonym directory = "(string \<times> string) list"

definition readdirSync :: "directory \<Rightarrow> string list" where
  "readdirSync d = map fst d"

definition readFileSync :: "directory \<Rightarrow> string \<Rightarrow> error + string" where
  "readFileSync d file = (case map_of d file of None \<Rightarrow> Inl ENOENT | Some content \<Rightarrow> Inr content)"

text \<open>
  \<^verbatim>\<open>writeFileSync\<close> replaces the content of an existing file and creates a missing one;
  the other entries keep their listing order.
\<close>

fun writeFileSync :: "directory \<Rightarrow> string \<Rightarrow> string \<Rightarrow> directory" where
  "writeFileSync [] file data = [(file, data)]"
| "writeFileSync ((f, c) # d) file data =
     (if f = file then (f, data) # d else (f, c) # writeFileSync d file data)"

definition endsWith :: "string \<Rightarrow> string \<Rightarrow> bool" where
  "endsWith s t = (length t \<le> length s \<and> drop (length s - length t) s = t)"

section \<open>\<^verbatim>\<open>bin/generate-modes-marketplace.ts\<close>\<close>

text \<open>
  Three functions of the runtime and of the \<^verbatim>\<open>yaml\<close> package are parameters:
  \<^item> \<open>P\<close>, \<^verbatim>\<open>yaml.parse\<close>: the parsed value, or the parser's exception;
  \<^item> \<open>L\<close>, \<^verbatim>\<open>String.prototype.localeCompare\<close> on the receiver and the argument already
    converted to a string: negative, zero or positive;
  \<^item> \<open>S\<close>, \<^verbatim>\<open>doc.toString\<close> for a line width and the document's value.
\<close>

type_synonym parser = "string \<Rightarrow> error + jsval"
type_synonym collator = "string \<Rightarrow> string \<Rightarrow> int"
type_synonym stringifier = "nat \<Rightarrow> jsval \<Rightarrow> string"

text \<open>Line 19: the files that are read.\<close>

definition mode_files :: "directory \<Rightarrow> string list" where
  "mode_files d =
     filter (\<lambda>file. endsWith file ''.yaml'' \<and> file \<noteq> ''marketplace.yaml'') (readdirSync d)"

text \<open>
  Lines 20 to 25: \<^verbatim>\<open>.map\<close> reads, parses and announces each file in turn. The template
  literal of line 23 converts \<^verbatim>\<open>mode.name\<close> to a string. The first exception ends the
  run; the lines printed until then stay printed.
\<close>

definition parse_file :: "parser \<Rightarrow> directory \<Rightarrow> string \<Rightarrow> error + jsval" where
  "parse_file P d file =
     (case readFileSync d file of Inl e \<Rightarrow> Inl e | Inr content \<Rightarrow> P content)"

fun load_modes ::
  "parser \<Rightarrow> directory \<Rightarrow> string list \<Rightarrow> (error + jsval list) \<times> string list" where
  "load_modes P d [] = (Inr [], [])"
| "load_modes P d (file # files) =
     (case parse_file P d file of
        Inl e \<Rightarrow> (Inl e, [])
      | Inr mode \<Rightarrow>
          (case get_prop mode ''name'' of
             Inl e \<Rightarrow> (Inl e, [])
           | Inr nm \<Rightarrow>
               (case ToString nm of
                  Inl e \<Rightarrow> (Inl e, [])
                | Inr s \<Rightarrow>
                    (case load_modes P d files of
                       (Inl e, out) \<Rightarrow> (Inl e, (''Added: '' @ s) # out)
                     | (Inr modes, out) \<Rightarrow> (Inr (mode # modes), (''Added: '' @ s) # out)))))"

text \<open>
  Line 26, the comparator \<^verbatim>\<open>(a, b) => a.id.localeCompare(b.id)\<close>: \<^verbatim>\<open>a.id\<close> has to be a
  string for the method to exist, \<^verbatim>\<open>b.id\<close> is converted to a string by the method.
\<close>

definition compare_id :: "collator \<Rightarrow> jsval \<Rightarrow> jsval \<Rightarrow> error + int" where
  "compare_id L a b =
     (case get_prop a ''id'' of
        Inl e \<Rightarrow> Inl e
      | Inr ia \<Rightarrow>
          (if ia = JUndefined \<or> ia = JNull then Inl TypeError
           else (case get_prop b ''id'' of
                   Inl e \<Rightarrow> Inl e
                 | Inr ib \<Rightarrow>
                     (case ia of
                        JStr s \<Rightarrow>
                          (case ToString ib of Inl e \<Rightarrow> Inl e | Inr t \<Rightarrow> Inr (L s t))
                      | _ \<Rightarrow> Inl TypeError))))"

text \<open>
  \<^verbatim>\<open>Array.prototype.sort\<close> as V8, the engine of Node, carries it out; an exception of the
  comparator leaves it. The comparator is always called with the element that came later
  in the array as its first argument.

  \<^verbatim>\<open>CountAndMakeRun\<close>: the longest run at the front that is ascending, or strictly
  descending and then reversed. \<open>run_tail\<close> is its loop over the elements after the second.
\<close>

fun run_tail ::
  "('a \<Rightarrow> 'a \<Rightarrow> error + int) \<Rightarrow> bool \<Rightarrow> 'a \<Rightarrow> 'a list \<Rightarrow> error + 'a list \<times> 'a list" where
  "run_tail c isDescending previousElement [] = Inr ([], [])"
| "run_tail c isDescending previousElement (currentElement # xs) =
     (case c currentElement previousElement of
        Inl e \<Rightarrow> Inl e
      | Inr order \<Rightarrow>
          (if (if isDescending then order \<ge> 0 else order < 0) then Inr ([], currentElement # xs)
           else (case run_tail c isDescending currentElement xs of
                   Inl e \<Rightarrow> Inl e
                 | Inr (run, rest) \<Rightarrow> Inr (currentElement # run, rest))))"

fun CountAndMakeRun ::
  "('a \<Rightarrow> 'a \<Rightarrow> error + int) \<Rightarrow> 'a list \<Rightarrow> error + 'a list \<times> 'a list" where
  "CountAndMakeRun c (elementHigh # elementLow # xs) =
     (case c elementLow elementHigh of
        Inl e \<Rightarrow> Inl e
      | Inr order \<Rightarrow>
          (case run_tail c (order < 0) elementLow xs of
             Inl e \<Rightarrow> Inl e
           | Inr (run, rest) \<Rightarrow>
               Inr (if order < 0 then rev (elementHigh # elementLow # run)
                    else elementHigh # elementLow # run, rest)))"
| "CountAndMakeRun c xs = Inr (xs, [])"

text \<open>
  \<^verbatim>\<open>BinaryInsertionSort\<close>: each element after the run is the pivot of a binary search in
  the sorted part before it (\<open>right\<close> never exceeds the length of that part) and is put
  where the search ends.
\<close>

function insertion_point ::
  "('a \<Rightarrow> 'a \<Rightarrow> error + int) \<Rightarrow> 'a \<Rightarrow> 'a list \<Rightarrow> nat \<Rightarrow> nat \<Rightarrow> error + nat" where
  "insertion_point c pivot ws left right =
     (if left < right then
        (case c pivot (ws ! (left + (right - left) div 2)) of
           Inl e \<Rightarrow> Inl e
         | Inr order \<Rightarrow>
             (if order < 0 then insertion_point c pivot ws left (left + (right - left) div 2)
              else insertion_point c pivot ws (left + (right - left) div 2 + 1) right))
      else Inr left)"
  by pat_completeness auto
termination
  by (relation "measure (\<lambda>(c, pivot, ws, left, right). right - left)") auto

fun BinaryInsertionSort ::
  "('a \<Rightarrow> 'a \<Rightarrow> error + int) \<Rightarrow> 'a list \<Rightarrow> 'a list \<Rightarrow> error + 'a list" where
  "BinaryInsertionSort c ws [] = Inr ws"
| "BinaryInsertionSort c ws (pivot # xs) =
     (case insertion_point c pivot ws 0 (length ws) of
        Inl e \<Rightarrow> Inl e
      | Inr left \<Rightarrow> BinaryInsertionSort c (take left ws @ pivot # drop left ws) xs)"

text \<open>
  \<^verbatim>\<open>ArrayTimSortImpl\<close> for an array of fewer than 64 elements, where the minimal run
  length is the length of the array: nothing for fewer than two elements, else one run and
  the insertion of the rest. From 64 elements on V8 cuts the array into several such runs
  and merges them, still with the later element as the comparator's first argument; the
  merging is not part of this development, and the sort below stands for it: it returns
  the same array whenever no call throws and the comparison is consistent.
\<close>

definition sort_by :: "('a \<Rightarrow> 'a \<Rightarrow> error + int) \<Rightarrow> 'a list \<Rightarrow> error + 'a list" where
  "sort_by c xs =
     (if length xs < 2 then Inr xs
      else (case CountAndMakeRun c xs of
              Inl e \<Rightarrow> Inl e
            | Inr (run, rest) \<Rightarrow> BinaryInsertionSort c run rest))"

text \<open>Lines 17 to 26: \<^verbatim>\<open>items\<close>, or the exception, with the lines printed.\<close>

definition items :: "parser \<Rightarrow> collator \<Rightarrow> directory \<Rightarrow> (error + jsval list) \<times> string list" where
  "items P L d =
     (case load_modes P d (mode_files d) of
        (Inl e, out) \<Rightarrow> (Inl e, out)
      | (Inr modes, out) \<Rightarrow> (sort_by (compare_id L) modes, out))"

text \<open>Lines 28 and 29: the document \<^verbatim>\<open>{ items }\<close>, rendered with \<^verbatim>\<open>lineWidth: 120\<close>.\<close>

definition output_text :: "stringifier \<Rightarrow> jsval list \<Rightarrow> string" where
  "output_text S its = S 120 (JObj [(''items'', JArr its [])])"

text \<open>
  The whole script: the sorted entries or the uncaught exception, the console, and the
  directory afterwards. Line 31 is reached only when nothing was thrown before.
\<close>

definition generate ::
  "parser \<Rightarrow> collator \<Rightarrow> stringifier \<Rightarrow> directory \<Rightarrow> (error + jsval list) \<times> string list \<times> directory" where
  "generate P L S d =
     (case items P L d of
        (Inl e, out) \<Rightarrow> (Inl e, out, d)
      | (Inr its, out) \<Rightarrow>
          (Inr its,
           out @ [''\<newline>Generated marketplace.yaml with '' @ digit_string (length its) @ '' modes''],
           writeFileSync d ''marketplace.yaml'' (output_text S its)))"

text \<open>
  Line 31 on its own. \<^verbatim>\<open>fs.writeFileSync\<close> opens the path with the flag \<^verbatim>\<open>w\<close>, which
  creates the file or truncates it to length zero, and then writes the data from front to
  back. The contents the file passes through, first to last:
\<close>

definition writeFileSync_contents :: "string \<Rightarrow> string list" where
  "writeFileSync_contents data = map (\<lambda>n. take n data) [0..<Suc (length data)]"

text \<open>
  What is at \<^verbatim>\<open>modes/marketplace.yaml\<close> at the moments of a run, first to last: the
  previous document (if there is one) until line 31, then the contents of the write.
\<close>

definition marketplace_contents ::
  "parser \<Rightarrow> collator \<Rightarrow> stringifier \<Rightarrow> directory \<Rightarrow> string option list" where
  "marketplace_contents P L S d =
     map_of d ''marketplace.yaml'' #
     (case fst (items P L d) of
        Inl e \<Rightarrow> []
      | Inr its \<Rightarrow> map Some (writeFileSync_contents (output_text S its)))"

section \<open>\<^verbatim>\<open>bin/update-skills.ts\<close>\<close>

text \<open>
  The interfaces of lines 20 to 30. The type annotations are not checked at run time:
  \<^verbatim>\<open>collectSkills\<close> stores whatever truthy values the local front matter holds under
  \<^verbatim>\<open>metadata.source\<close>.
\<close>

record SourceInfo =
  repository :: jsval
  path :: jsval

record SkillInfo =
  name :: string
  dir :: string
  source :: SourceInfo
  frontmatter :: jsval

text \<open>
  Sequencing of steps that may throw, optional chaining \<^verbatim>\<open>v?.k\<close>, and assignment
  \<^verbatim>\<open>v.k = x\<close>: an existing key keeps its place, a new key goes last.
\<close>

definition and_then :: "error + 'a \<Rightarrow> ('a \<Rightarrow> error + 'b) \<Rightarrow> error + 'b" where
  "and_then r f = (case r of Inl e \<Rightarrow> Inl e | Inr v \<Rightarrow> f v)"

definition opt_prop :: "jsval \<Rightarrow> string \<Rightarrow> jsval" where
  "opt_prop v k = (case get_prop v k of Inl e \<Rightarrow> JUndefined | Inr x \<Rightarrow> x)"

fun assign :: "(string \<times> jsval) list \<Rightarrow> string \<Rightarrow> jsval \<Rightarrow> (string \<times> jsval) list" where
  "assign [] k v = [(k, v)]"
| "assign ((k', v') # kvs) k v =
     (if k' = k then (k, v) # kvs else (k', v') # assign kvs k v)"

fun set_prop :: "jsval \<Rightarrow> string \<Rightarrow> jsval \<Rightarrow> error + jsval" where
  "set_prop (JObj kvs) k v = Inr (JObj (assign kvs k v))"
| "set_prop (JArr xs ps) k v = Inr (JArr xs (assign ps k v))"
| "set_prop JUndefined k v = Inl TypeError"
| "set_prop JNull k v = Inl TypeError"
| "set_prop (JBool b) k v = Inl TypeError"
| "set_prop (JNum n) k v = Inl TypeError"
| "set_prop (JStr s) k v = Inl TypeError"

text \<open>
  \<^verbatim>\<open>fm.metadata.k = x\<close> changes the object that \<^verbatim>\<open>fm.metadata\<close> refers to; with values
  in place of references, the changed object is put back under \<^verbatim>\<open>metadata\<close>.
\<close>

definition set_metadata_prop :: "jsval \<Rightarrow> string \<Rightarrow> jsval \<Rightarrow> error + jsval" where
  "set_metadata_prop fm k x =
     and_then (get_prop fm ''metadata'') (\<lambda>m.
     and_then (set_prop m k x) (\<lambda>m'.
     set_prop fm ''metadata'' m'))"

text \<open>
  \<open>M\<close> is \<^verbatim>\<open>matter\<close> of the gray-matter package: the front matter (\<^verbatim>\<open>data\<close>) and the body
  (\<^verbatim>\<open>content\<close>) of a document, or the exception of its YAML engine.
\<close>

type_synonym matter = "string \<Rightarrow> error + jsval \<times> string"

text \<open>
  Lines 163 to 186 of \<^verbatim>\<open>updateFromRepo\<close>, for one skill: \<open>newContent\<close> is the text of
  the upstream \<^verbatim>\<open>SKILL.md\<close> that lines 148 to 161 have copied over the local one. The
  result is what line 188 hands to \<^verbatim>\<open>matter.stringify\<close>: the body and the front
  matter.
\<close>

definition reapply_source :: "matter \<Rightarrow> SkillInfo \<Rightarrow> string \<Rightarrow> error + string \<times> jsval" where
  "reapply_source M skill newContent =
     and_then (M newContent) (\<lambda>(newFrontmatter, body).
     and_then (get_prop newFrontmatter ''metadata'') (\<lambda>m.
     and_then (if \<not> truthy m then set_prop newFrontmatter ''metadata'' (JObj [])
               else Inr newFrontmatter) (\<lambda>fm1.
     and_then (get_prop fm1 ''metadata'') (\<lambda>m1.
     and_then (get_prop m1 ''category'') (\<lambda>category.
     and_then (if \<not> truthy category \<and>
                  truthy (opt_prop (opt_prop (frontmatter skill) ''metadata'') ''category'')
               then set_metadata_prop fm1 ''category''
                      (opt_prop (opt_prop (frontmatter skill) ''metadata'') ''category'')
               else Inr fm1) (\<lambda>fm2.
     and_then (set_metadata_prop fm2 ''source''
                 (JObj [(''repository'', repository (source skill)),
                        (''path'', path (source skill))])) (\<lambda>fm3.
     Inr (body, fm3))))))))"

section \<open>Notions of the statements\<close>

text \<open>
  An entry carries a string \<^verbatim>\<open>id\<close>; the string under which \<^verbatim>\<open>localeCompare\<close> sees an
  entry's \<^verbatim>\<open>id\<close> (empty where the conversion throws); the text of \<^verbatim>\<open>${mode.name}\<close> on line
  23, or its exception; and what the language asks of a comparison for \<^verbatim>\<open>sort\<close> to have
  a defined result: the two directions agree and the order is transitive.
\<close>

definition has_string_id :: "jsval \<Rightarrow> bool" where
  "has_string_id v = (case get_prop v ''id'' of Inr (JStr s) \<Rightarrow> True | _ \<Rightarrow> False)"

definition id_key :: "jsval \<Rightarrow> string" where
  "id_key v = (case ToString (opt_prop v ''id'') of Inl e \<Rightarrow> [] | Inr s \<Rightarrow> s)"

definition name_text :: "jsval \<Rightarrow> error + string" where
  "name_text mode = and_then (get_prop mode ''name'') ToString"

definition consistent :: "collator \<Rightarrow> bool" where
  "consistent L \<longleftrightarrow>
     (\<forall>a b. (L a b < 0) = (0 < L b a)) \<and>
     (\<forall>a b c. L a b \<le> 0 \<and> L b c \<le> 0 \<longrightarrow> L a c \<le> 0)"

section \<open>Sample data\<close>

text \<open>
  Concrete stand-ins for the parameters, on which the theorems below are exercised: the
  parser's answers on a few documents, and a renderer for sequences of flat mappings.
\<close>

definition sample_parse :: parser where
  "sample_parse content =
     (if content = ''id: architect\<newline>name: Architect\<newline>''
        then Inr (JObj [(''id'', JStr ''architect''), (''name'', JStr ''Architect'')])
      else if content = ''id: code\<newline>name: Code\<newline>''
        then Inr (JObj [(''id'', JStr ''code''), (''name'', JStr ''Code'')])
      else if content = ''id: dup\<newline>name: First\<newline>''
        then Inr (JObj [(''id'', JStr ''dup''), (''name'', JStr ''First'')])
      else if content = ''id: dup\<newline>name: Second\<newline>''
        then Inr (JObj [(''id'', JStr ''dup''), (''name'', JStr ''Second'')])
      else if content = ''id: apple\<newline>name: Apple\<newline>''
        then Inr (JObj [(''id'', JStr ''apple''), (''name'', JStr ''Apple'')])
      else if content = ''id: Zebra\<newline>name: Zebra\<newline>''
        then Inr (JObj [(''id'', JStr ''Zebra''), (''name'', JStr ''Zebra'')])
      else if content = [] then Inr JNull
      else Inl YAMLParseError)"

text \<open>The lexicographic order of strings by character code: negative, zero or positive.\<close>

fun codeunit_compare :: "string \<Rightarrow> string \<Rightarrow> int" where
  "codeunit_compare [] [] = 0"
| "codeunit_compare [] (y # ys) = - 1"
| "codeunit_compare (x # xs) [] = 1"
| "codeunit_compare (x # xs) (y # ys) =
     (if (of_char x :: nat) < of_char y then - 1
      else if (of_char y :: nat) < of_char x then 1
      else codeunit_compare xs ys)"

text \<open>
  A stand-in for \<^verbatim>\<open>localeCompare\<close> on identifiers of ASCII letters, where the collation
  of Node's default locale compares the letters without regard to case first and, on a
  tie, puts a lower-case letter before its upper-case letter: \<^verbatim>\<open>apple\<close> before
  \<^verbatim>\<open>Zebra\<close>, \<^verbatim>\<open>a\<close> before \<^verbatim>\<open>A\<close>.
\<close>

definition to_lower :: "char \<Rightarrow> char" where
  "to_lower ch =
     (case map_of (zip ''ABCDEFGHIJKLMNOPQRSTUVWXYZ'' ''abcdefghijklmnopqrstuvwxyz'') ch of
        None \<Rightarrow> ch | Some l \<Rightarrow> l)"

definition swap_case :: "char \<Rightarrow> char" where
  "swap_case ch =
     (case map_of (zip ''ABCDEFGHIJKLMNOPQRSTUVWXYZabcdefghijklmnopqrstuvwxyz''
                       ''abcdefghijklmnopqrstuvwxyzABCDEFGHIJKLMNOPQRSTUVWXYZ'') ch of
        None \<Rightarrow> ch | Some l \<Rightarrow> l)"

definition collation_key :: "string \<Rightarrow> string" where
  "collation_key s = map to_lower s @ [CHR 0x00] @ map swap_case s"

definition sample_localeCompare :: collator where
  "sample_localeCompare a b = codeunit_compare (collation_key a) (collation_key b)"

fun sample_scalar :: "jsval \<Rightarrow> string" where
  "sample_scalar (JStr s) = s"
| "sample_scalar (JNum n) = n"
| "sample_scalar v = ''null''"

fun sample_fields :: "(string \<times> jsval) list \<Rightarrow> string" where
  "sample_fields [] = []"
| "sample_fields [(k, v)] = k @ '': '' @ sample_scalar v @ ''\<newline>''"
| "sample_fields ((k, v) # kv # kvs) =
     k @ '': '' @ sample_scalar v @ ''\<newline>    '' @ sample_fields (kv # kvs)"

fun sample_entry :: "jsval \<Rightarrow> string" where
  "sample_entry (JObj (kv # kvs)) = ''  - '' @ sample_fields (kv # kvs)"
| "sample_entry v = ''  - '' @ sample_scalar v @ ''\<newline>''"

definition sample_toString :: stringifier where
  "sample_toString w doc =
     (case doc of
        JObj [(k, JArr [] [])] \<Rightarrow> k @ '': []\<newline>''
      | JObj [(k, JArr (x # xs) [])] \<Rightarrow> k @ '':\<newline>'' @ concat (map sample_entry (x # xs))
      | _ \<Rightarrow> sample_scalar doc @ ''\<newline>'')"

text \<open>
  An upstream \<^verbatim>\<open>SKILL.md\<close> whose front matter has a sequence under \<^verbatim>\<open>metadata\<close>, what
  \<^verbatim>\<open>matter\<close> returns for it, and a local skill that mirrors it.
\<close>

definition sample_upstream :: string where
  "sample_upstream =
     ''---\<newline>name: pdf\<newline>metadata:\<newline>  - a\<newline>  - b\<newline>---\<newline>Body\<newline>''"

definition sample_matter :: matter where
  "sample_matter content =
     (if content = sample_upstream
        then Inr (JObj [(''name'', JStr ''pdf''),
                        (''metadata'', JArr [JStr ''a'', JStr ''b''] [])],
                  ''Body\<newline>'')
      else Inl YAMLParseError)"

definition sample_skill :: SkillInfo where
  "sample_skill =
     \<lparr> name = ''pdf'', dir = ''skills/pdf'',
       source = \<lparr> repository = JStr ''https://github.com/anthropics/skills'',
                  path = JStr ''skills/pdf'' \<rparr>,
       frontmatter = JObj [(''name'', JStr ''pdf''),
                           (''metadata'', JObj [(''category'', JStr ''tools'')])] \<rparr>"

definition sample_modes :: directory where
  "sample_modes =
     [(''code.yaml'', ''id: code\<newline>name: Code\<newline>''),
      (''README.md'', ''Modes''),
      (''architect.yaml'', ''id: architect\<newline>name: Architect\<newline>''),
      (''marketplace.yaml'', ''items: []\<newline>'')]"

definition sample_duplicates :: directory where
  "sample_duplicates =
     [(''a.yaml'', ''id: dup\<newline>name: First\<newline>''),
      (''b.yaml'', ''id: dup\<newline>name: Second\<newline>'')]"

definition sample_broken :: directory where
  "sample_broken =
     [(''architect.yaml'', ''id: architect\<newline>name: Architect\<newline>''),
      (''broken.yaml'', ''id: [unclosed\<newline>''),
      (''code.yaml'', ''id: code\<newline>name: Code\<newline>''),
      (''marketplace.yaml'', ''items: []\<newline>'')]"

definition sample_empty :: directory where
  "sample_empty =
     [(''empty.yaml'', []),
      (''marketplace.yaml'', ''items: []\<newline>'')]"

definition sample_stale :: directory where
  "sample_stale =
     [(''code.yaml'', ''id: code\<newline>name: Code\<newline>''),
      (''marketplace.yaml'', ''items:\<newline>  - id: stale\<newline>''),
      (''README.md'', ''Modes''),
      (''architect.yaml'', ''id: architect\<newline>name: Architect\<newline>'')]"

definition sample_mixed_case :: directory where
  "sample_mixed_case =
     [(''apple.yaml'', ''id: apple\<newline>name: Apple\<newline>''),
      (''zebra.yaml'', ''id: Zebra\<newline>name: Zebra\<newline>'')]"

lemmas sample_defs =
  generate_def items_def mode_files_def readdirSync_def endsWith_def parse_file_def
  readFileSync_def sample_parse_def compare_id_def output_text_def sample_toString_def
  sort_by_def sample_localeCompare_def collation_key_def to_lower_def swap_case_def

section \<open>The directory under a write\<close>

lemma map_of_writeFileSync_other:
  "g \<noteq> f \<Longrightarrow> map_of (writeFileSync d f x) g = map_of d g"
  by (induction d f x rule: writeFileSync.induct) auto

lemma map_of_writeFileSync_same: "map_of (writeFileSync d f x) f = Some x"
  by (induction d f x rule: writeFileSync.induct) auto

lemma names_writeFileSync:
  "filter (\<lambda>g. g \<noteq> f) (map fst (writeFileSync d f x)) = filter (\<lambda>g. g \<noteq> f) (map fst d)"
  by (induction d f x rule: writeFileSync.induct) auto

lemma writeFileSync_again: "writeFileSync (writeFileSync d f x) f x = writeFileSync d f x"
  by (induction d f x rule: writeFileSync.induct) auto

lemma mode_files_via_others:
  "mode_files d =
     filter (\<lambda>file. endsWith file ''.yaml'' \<and> file \<noteq> ''marketplace.yaml'')
       (filter (\<lambda>f. f \<noteq> ''marketplace.yaml'') (map fst d))"
  unfolding mode_files_def readdirSync_def filter_filter
  by (rule filter_cong) auto

lemma mode_files_writeFileSync:
  "mode_files (writeFileSync d ''marketplace.yaml'' x) = mode_files d"
  by (simp only: mode_files_via_others names_writeFileSync)

lemma mode_files_not_marketplace: "f \<in> set (mode_files d) \<Longrightarrow> f \<noteq> ''marketplace.yaml''"
  by (simp add: mode_files_def)

section \<open>What the entries depend on\<close>

lemma parse_file_cong: "map_of d1 f = map_of d2 f \<Longrightarrow> parse_file P d1 f = parse_file P d2 f"
  by (simp add: parse_file_def readFileSync_def)

lemma load_modes_cong:
  "(\<And>f. f \<in> set files \<Longrightarrow> map_of d1 f = map_of d2 f) \<Longrightarrow>
   load_modes P d1 files = load_modes P d2 files"
proof (induction files)
  case Nil
  show ?case by simp
next
  case (Cons f files)
  have "parse_file P d1 f = parse_file P d2 f"
    by (rule parse_file_cong) (simp add: Cons.prems)
  moreover have "load_modes P d1 files = load_modes P d2 files"
    by (rule Cons.IH) (simp add: Cons.prems)
  ultimately show ?case by (simp split: sum.splits prod.splits)
qed

lemma items_cong:
  assumes "mode_files d1 = mode_files d2"
    and "\<And>f. f \<noteq> ''marketplace.yaml'' \<Longrightarrow> map_of d1 f = map_of d2 f"
  shows "items P L d1 = items P L d2"
proof -
  have "load_modes P d1 (mode_files d2) = load_modes P d2 (mode_files d2)"
    by (rule load_modes_cong) (simp add: assms(2) mode_files_not_marketplace)
  then show ?thesis by (simp add: items_def assms(1))
qed

lemma items_writeFileSync:
  "items P L (writeFileSync d ''marketplace.yaml'' x) = items P L d"
  by (rule items_cong) (simp_all add: mode_files_writeFileSync map_of_writeFileSync_other)

declare insertion_point.simps [simp del]

section \<open>The sort permutes\<close>

lemma run_tail_append:
  "run_tail c desc prev xs = Inr (run, rest) \<Longrightarrow> run @ rest = xs"
  by (induction xs arbitrary: prev run) (auto split: sum.splits if_splits)

lemma CountAndMakeRun_mset:
  "CountAndMakeRun c xs = Inr (run, rest) \<Longrightarrow> mset run + mset rest = mset xs"
  by (induction c xs rule: CountAndMakeRun.induct)
    (auto split: sum.splits if_splits dest!: run_tail_append)

lemma mset_put: "mset (take i ws @ p # drop i ws) = add_mset p (mset ws)"
proof -
  have "mset (take i ws) + mset (drop i ws) = mset ws"
    by (simp only: mset_append [symmetric] append_take_drop_id)
  then show ?thesis by simp
qed

lemma BinaryInsertionSort_mset:
  "BinaryInsertionSort c ws xs = Inr zs \<Longrightarrow> mset zs = mset ws + mset xs"
proof (induction xs arbitrary: ws)
  case Nil
  then show ?case by simp
next
  case (Cons p xs)
  from Cons.prems obtain i where
    "BinaryInsertionSort c (take i ws @ p # drop i ws) xs = Inr zs"
    by (auto split: sum.splits)
  from Cons.IH [OF this] show ?case by (simp only: mset_put) simp
qed

lemma sort_by_mset: "sort_by c xs = Inr ys \<Longrightarrow> mset ys = mset xs"
  by (auto simp: sort_by_def split: if_splits sum.splits
      dest!: CountAndMakeRun_mset BinaryInsertionSort_mset)

section \<open>The sort succeeds where the comparator does\<close>

lemma run_tail_ok:
  assumes ok: "\<And>x y. Q x \<Longrightarrow> Q y \<Longrightarrow> \<exists>n. c x y = Inr n"
  shows "Q prev \<Longrightarrow> \<forall>x\<in>set xs. Q x \<Longrightarrow> \<exists>run rest. run_tail c desc prev xs = Inr (run, rest)"
proof (induction xs arbitrary: prev)
  case Nil
  show ?case by simp
next
  case (Cons cur xs)
  from Cons.prems have q: "Q cur" "\<forall>x\<in>set xs. Q x" by simp_all
  from ok [OF q(1) Cons.prems(1)] obtain n where n: "c cur prev = Inr n" by blast
  from Cons.IH [OF q] obtain run rest where "run_tail c desc cur xs = Inr (run, rest)" by blast
  with n show ?case by simp
qed

lemma CountAndMakeRun_ok:
  assumes ok: "\<And>x y. Q x \<Longrightarrow> Q y \<Longrightarrow> \<exists>n. c x y = Inr n"
    and xs: "\<forall>x\<in>set xs. Q x"
  shows "\<exists>run rest. CountAndMakeRun c xs = Inr (run, rest)"
proof (cases xs)
  case Nil
  then show ?thesis by simp
next
  case (Cons x0 ys)
  show ?thesis
  proof (cases ys)
    case Nil
    with Cons show ?thesis by simp
  next
    case (Cons x1 zs)
    with \<open>xs = x0 # ys\<close> xs have q: "Q x0" "Q x1" "\<forall>x\<in>set zs. Q x" by simp_all
    from ok [OF q(2) q(1)] obtain n where n: "c x1 x0 = Inr n" by blast
    from run_tail_ok [of Q c, OF ok q(2) q(3)] obtain run rest where
      "run_tail c (n < 0) x1 zs = Inr (run, rest)" by blast
    with n Cons \<open>xs = x0 # ys\<close> show ?thesis by simp
  qed
qed

lemma insertion_point_ok:
  "(\<And>x y. Q x \<Longrightarrow> Q y \<Longrightarrow> \<exists>n. c x y = Inr n) \<Longrightarrow>
   Q p \<Longrightarrow> \<forall>x\<in>set ws. Q x \<Longrightarrow> r \<le> length ws \<Longrightarrow> \<exists>i. insertion_point c p ws l r = Inr i"
proof (induction c p ws l r rule: insertion_point.induct)
  case (1 c p ws l r)
  note ok = "1.prems"(1)
  show ?case
  proof (cases "l < r")
    case False
    then show ?thesis by (simp add: insertion_point.simps [of c p ws l r])
  next
    case True
    let ?mid = "l + (r - l) div 2"
    from True "1.prems"(4) have mid: "?mid < length ws" "?mid \<le> length ws" by simp_all
    then have "Q (ws ! ?mid)" using "1.prems"(3) by simp
    from ok [OF "1.prems"(2) this] obtain n where n: "c p (ws ! ?mid) = Inr n" by blast
    show ?thesis
    proof (cases "n < 0")
      case neg: True
      from "1.IH"(1) [OF True n neg ok "1.prems"(2,3) mid(2)] n neg True show ?thesis
        by (simp add: insertion_point.simps [of c p ws l r])
    next
      case nonneg: False
      from "1.IH"(2) [OF True n nonneg ok "1.prems"(2,3,4)] n nonneg True show ?thesis
        by (simp add: insertion_point.simps [of c p ws l r])
    qed
  qed
qed

lemma BinaryInsertionSort_ok:
  assumes ok: "\<And>x y. Q x \<Longrightarrow> Q y \<Longrightarrow> \<exists>n. c x y = Inr n"
  shows "\<forall>x\<in>set ws. Q x \<Longrightarrow> \<forall>x\<in>set xs. Q x \<Longrightarrow> \<exists>zs. BinaryInsertionSort c ws xs = Inr zs"
proof (induction xs arbitrary: ws)
  case Nil
  show ?case by simp
next
  case (Cons p xs)
  from Cons.prems have q: "Q p" "\<forall>x\<in>set xs. Q x" by simp_all
  from insertion_point_ok [of Q c, OF ok q(1) Cons.prems(1) le_refl] obtain i where
    i: "insertion_point c p ws 0 (length ws) = Inr i" by blast
  have "\<forall>x\<in>set (take i ws @ p # drop i ws). Q x"
    using Cons.prems(1) q(1) by (auto dest: in_set_takeD in_set_dropD)
  from Cons.IH [OF this q(2)] i show ?case by simp
qed

lemma sort_by_ok_generic:
  assumes ok: "\<And>x y. Q x \<Longrightarrow> Q y \<Longrightarrow> \<exists>n. c x y = Inr n"
    and xs: "\<forall>x\<in>set xs. Q x"
  shows "\<exists>ys. sort_by c xs = Inr ys"
proof (cases "length xs < 2")
  case True
  then show ?thesis by (simp add: sort_by_def)
next
  case False
  from CountAndMakeRun_ok [of Q c, OF ok xs] obtain run rest where
    r: "CountAndMakeRun c xs = Inr (run, rest)" by blast
  from CountAndMakeRun_mset [OF r] have "set_mset (mset run + mset rest) = set_mset (mset xs)"
    by simp
  then have "set run \<union> set rest = set xs" by simp
  with xs have "\<forall>x\<in>set run. Q x" "\<forall>x\<in>set rest. Q x" by auto
  from BinaryInsertionSort_ok [of Q c, OF ok this] r False show ?thesis
    by (simp add: sort_by_def)
qed

section \<open>The sort sorts\<close>

lemma run_tail_sorted:
  assumes tr: "\<And>x y z. R x y \<Longrightarrow> R y z \<Longrightarrow> R x z"
    and cR: "\<And>x y n. c x y = Inr n \<Longrightarrow> (if n < 0 then R x y else R y x)"
  shows "run_tail c desc prev xs = Inr (run, rest) \<Longrightarrow>
         sorted_wrt (\<lambda>x y. if desc then R y x else R x y) (prev # run)"
proof (induction xs arbitrary: prev run)
  case Nil
  then show ?case by simp
next
  case (Cons cur xs)
  from Cons.prems obtain n where n: "c cur prev = Inr n" by (auto split: sum.splits)
  show ?case
  proof (cases "if desc then n \<ge> 0 else n < 0")
    case True
    with Cons.prems n have "run = []" by (auto split: if_splits)
    then show ?thesis by simp
  next
    case False
    with Cons.prems n obtain run' where run': "run_tail c desc cur xs = Inr (run', rest)"
      and run: "run = cur # run'" by (auto split: sum.splits if_splits)
    from Cons.IH [OF run'] have IH: "sorted_wrt (\<lambda>x y. if desc then R y x else R x y) (cur # run')" .
    show ?thesis
    proof (cases desc)
      case True
      with False have "n < 0" by simp
      with cR [OF n] have step: "R cur prev" by simp
      from IH True have "\<forall>z\<in>set run'. R z cur" by simp
      with step have "\<forall>z\<in>set run'. R z prev" using tr by blast
      with step IH True run show ?thesis by simp
    next
      case asc: False
      with False have "\<not> n < 0" by simp
      with cR [OF n] have step: "R prev cur" by simp
      from IH asc have "\<forall>z\<in>set run'. R cur z" by simp
      with step have "\<forall>z\<in>set run'. R prev z" using tr by blast
      with step IH asc run show ?thesis by simp
    qed
  qed
qed

lemma CountAndMakeRun_sorted:
  assumes tr: "\<And>x y z. R x y \<Longrightarrow> R y z \<Longrightarrow> R x z"
    and cR: "\<And>x y n. c x y = Inr n \<Longrightarrow> (if n < 0 then R x y else R y x)"
    and run: "CountAndMakeRun c xs = Inr (run, rest)"
  shows "sorted_wrt R run"
proof (cases xs)
  case Nil
  with run show ?thesis by simp
next
  case (Cons x0 ys)
  show ?thesis
  proof (cases ys)
    case Nil
    with Cons run show ?thesis by auto
  next
    case (Cons x1 zs)
    with \<open>xs = x0 # ys\<close> run obtain n r where n: "c x1 x0 = Inr n"
      and r: "run_tail c (n < 0) x1 zs = Inr (r, rest)"
      and run_eq: "run = (if n < 0 then rev (x0 # x1 # r) else x0 # x1 # r)"
      by (auto split: sum.splits)
    from run_tail_sorted [of R c, OF tr cR r]
    have s: "sorted_wrt (\<lambda>x y. if n < 0 then R y x else R x y) (x1 # r)" .
    show ?thesis
    proof (cases "n < 0")
      case True
      with cR [OF n] have step: "R x1 x0" by simp
      from s True have "\<forall>z\<in>set r. R z x1" by simp
      with step have "\<forall>z\<in>set r. R z x0" using tr by blast
      with step s True have "sorted_wrt (\<lambda>x y. R y x) (x0 # x1 # r)" by simp
      then have "sorted_wrt R (rev (x0 # x1 # r))" by (simp only: sorted_wrt_rev)
      with run_eq True show ?thesis by simp
    next
      case False
      with cR [OF n] have step: "R x0 x1" by simp
      from s False have "\<forall>z\<in>set r. R x1 z" by simp
      with step have "\<forall>z\<in>set r. R x0 z" using tr by blast
      with step s False run_eq show ?thesis by simp
    qed
  qed
qed

lemma insertion_point_spec:
  "(\<And>x y z. R x y \<Longrightarrow> R y z \<Longrightarrow> R x z) \<Longrightarrow>
   (\<And>x y n. c x y = Inr n \<Longrightarrow> (if n < 0 then R x y else R y x)) \<Longrightarrow>
   sorted_wrt R ws \<Longrightarrow> r \<le> length ws \<Longrightarrow>
   \<forall>j<l. j < length ws \<longrightarrow> R (ws ! j) p \<Longrightarrow>
   \<forall>j. r \<le> j \<and> j < length ws \<longrightarrow> R p (ws ! j) \<Longrightarrow>
   insertion_point c p ws l r = Inr i \<Longrightarrow>
   (\<forall>j<i. j < length ws \<longrightarrow> R (ws ! j) p) \<and> (\<forall>j. i \<le> j \<and> j < length ws \<longrightarrow> R p (ws ! j))"
proof (induction c p ws l r rule: insertion_point.induct)
  case (1 c p ws l r)
  note tr = "1.prems"(1) and cR = "1.prems"(2) and srt = "1.prems"(3) and len = "1.prems"(4)
    and lo = "1.prems"(5) and hi = "1.prems"(6) and res = "1.prems"(7)
  show ?case
  proof (cases "l < r")
    case False
    with res have "i = l" by (simp add: insertion_point.simps [of c p ws l r])
    with lo hi False show ?thesis by auto
  next
    case True
    let ?mid = "l + (r - l) div 2"
    from True len have mid: "?mid < length ws" "?mid \<le> length ws" by simp_all
    from res True obtain n where n: "c p (ws ! ?mid) = Inr n"
      by (auto simp: insertion_point.simps [of c p ws l r] split: sum.splits)
    show ?thesis
    proof (cases "n < 0")
      case neg: True
      with cR [OF n] have pm: "R p (ws ! ?mid)" by simp
      have hi': "\<forall>j. ?mid \<le> j \<and> j < length ws \<longrightarrow> R p (ws ! j)"
      proof (intro allI impI)
        fix j assume j: "?mid \<le> j \<and> j < length ws"
        show "R p (ws ! j)"
        proof (cases "j = ?mid")
          case True
          with pm show ?thesis by simp
        next
          case False
          with j have lt: "?mid < j" and jl: "j < length ws" by simp_all
          from sorted_wrt_nth_less [OF srt lt jl] have "R (ws ! ?mid) (ws ! j)" .
          with pm show ?thesis using tr by blast
        qed
      qed
      from res True n neg have "insertion_point c p ws l ?mid = Inr i"
        by (simp add: insertion_point.simps [of c p ws l r])
      from "1.IH"(1) [OF True n neg tr cR srt mid(2) lo hi' this] show ?thesis .
    next
      case nonneg: False
      with cR [OF n] have mp: "R (ws ! ?mid) p" by simp
      have lo': "\<forall>j<?mid + 1. j < length ws \<longrightarrow> R (ws ! j) p"
      proof (intro allI impI)
        fix j assume j: "j < ?mid + 1" and "j < length ws"
        show "R (ws ! j) p"
        proof (cases "j = ?mid")
          case True
          with mp show ?thesis by simp
        next
          case False
          with j have lt: "j < ?mid" by simp
          from sorted_wrt_nth_less [OF srt lt mid(1)] have "R (ws ! j) (ws ! ?mid)" .
          with mp show ?thesis using tr by blast
        qed
      qed
      from res True n nonneg have "insertion_point c p ws (?mid + 1) r = Inr i"
        by (simp add: insertion_point.simps [of c p ws l r])
      from "1.IH"(2) [OF True n nonneg tr cR srt len lo' hi this] show ?thesis .
    qed
  qed
qed

lemma sorted_wrt_put:
  assumes srt: "sorted_wrt R ws"
    and lo: "\<forall>j<i. j < length ws \<longrightarrow> R (ws ! j) p"
    and hi: "\<forall>j. i \<le> j \<and> j < length ws \<longrightarrow> R p (ws ! j)"
  shows "sorted_wrt R (take i ws @ p # drop i ws)"
proof -
  have "sorted_wrt R (take i ws @ drop i ws)"
    by (simp only: append_take_drop_id srt)
  then have parts: "sorted_wrt R (take i ws) \<and> sorted_wrt R (drop i ws) \<and>
    (\<forall>x\<in>set (take i ws). \<forall>y\<in>set (drop i ws). R x y)"
    unfolding sorted_wrt_append .
  have before: "\<forall>x\<in>set (take i ws). R x p"
  proof
    fix x assume "x \<in> set (take i ws)"
    then obtain j where "j < length (take i ws)" "x = take i ws ! j"
      by (auto simp: in_set_conv_nth)
    with lo show "R x p" by simp
  qed
  have after: "\<forall>y\<in>set (drop i ws). R p y"
  proof
    fix y assume "y \<in> set (drop i ws)"
    then obtain j where "j < length (drop i ws)" "y = drop i ws ! j"
      by (auto simp: in_set_conv_nth)
    with hi show "R p y" by simp
  qed
  from parts before after show ?thesis by (simp add: sorted_wrt_append)
qed

lemma BinaryInsertionSort_sorted:
  assumes tr: "\<And>x y z. R x y \<Longrightarrow> R y z \<Longrightarrow> R x z"
    and cR: "\<And>x y n. c x y = Inr n \<Longrightarrow> (if n < 0 then R x y else R y x)"
  shows "sorted_wrt R ws \<Longrightarrow> BinaryInsertionSort c ws xs = Inr zs \<Longrightarrow> sorted_wrt R zs"
proof (induction xs arbitrary: ws)
  case Nil
  then show ?case by simp
next
  case (Cons p xs)
  from Cons.prems(2) obtain i where i: "insertion_point c p ws 0 (length ws) = Inr i"
    and rest: "BinaryInsertionSort c (take i ws @ p # drop i ws) xs = Inr zs"
    by (auto split: sum.splits)
  have lo0: "\<forall>j<0. j < length ws \<longrightarrow> R (ws ! j) p" by simp
  have hi0: "\<forall>j. length ws \<le> j \<and> j < length ws \<longrightarrow> R p (ws ! j)" by auto
  have both: "(\<forall>j<i. j < length ws \<longrightarrow> R (ws ! j) p) \<and> (\<forall>j. i \<le> j \<and> j < length ws \<longrightarrow> R p (ws ! j))"
    by (rule insertion_point_spec [of R c ws "length ws" 0 p i, OF tr cR Cons.prems(1) le_refl lo0 hi0 i])
  from both have lo: "\<forall>j<i. j < length ws \<longrightarrow> R (ws ! j) p" by (rule conjunct1)
  from both have hi: "\<forall>j. i \<le> j \<and> j < length ws \<longrightarrow> R p (ws ! j)" by (rule conjunct2)
  from sorted_wrt_put [OF Cons.prems(1) lo hi]
  have "sorted_wrt R (take i ws @ p # drop i ws)" .
  from Cons.IH [OF this rest] show ?case .
qed

lemma sort_by_sorted_generic:
  assumes tr: "\<And>x y z. R x y \<Longrightarrow> R y z \<Longrightarrow> R x z"
    and cR: "\<And>x y n. c x y = Inr n \<Longrightarrow> (if n < 0 then R x y else R y x)"
    and res: "sort_by c xs = Inr ys"
  shows "sorted_wrt R ys"
proof (cases "length xs < 2")
  case True
  with res have "ys = xs" by (simp add: sort_by_def)
  moreover from True have "xs = [] \<or> (\<exists>x. xs = [x])"
    by (cases xs) (simp_all add: length_Suc_conv)
  ultimately show ?thesis by auto
next
  case False
  with res obtain run rest where r: "CountAndMakeRun c xs = Inr (run, rest)"
    and b: "BinaryInsertionSort c run rest = Inr ys"
    by (auto simp: sort_by_def split: sum.splits)
  from CountAndMakeRun_sorted [of R c, OF tr cR r] have "sorted_wrt R run" .
  from BinaryInsertionSort_sorted [of R c, OF tr cR this b] show ?thesis .
qed

section \<open>The comparator of line 26\<close>

lemma compare_id_Inr:
  "compare_id L a b = Inr n \<Longrightarrow> n = L (id_key a) (id_key b)"
  by (auto simp: compare_id_def id_key_def opt_prop_def
      split: sum.splits if_splits jsval.splits)

lemma compare_id_string:
  "has_string_id a \<Longrightarrow> has_string_id b \<Longrightarrow> \<exists>n. compare_id L a b = Inr n"
  by (auto simp: compare_id_def has_string_id_def split: sum.splits jsval.splits)

lemma sort_by_ok:
  "\<forall>x\<in>set xs. has_string_id x \<Longrightarrow> \<exists>ys. sort_by (compare_id L) xs = Inr ys"
  by (rule sort_by_ok_generic [of has_string_id]) (rule compare_id_string)

lemma consistent_sym: "consistent L \<Longrightarrow> (L a b < 0) = (0 < L b a)"
  unfolding consistent_def by blast

lemma consistent_flip: "consistent L \<Longrightarrow> \<not> L a b < 0 \<Longrightarrow> L b a \<le> 0"
  using consistent_sym [of L b a] consistent_sym [of L a b] by simp

lemma consistent_trans: "consistent L \<Longrightarrow> L a b \<le> 0 \<Longrightarrow> L b c \<le> 0 \<Longrightarrow> L a c \<le> 0"
  unfolding consistent_def by blast

lemma consistent_strict: "consistent L \<Longrightarrow> L a b < 0 \<Longrightarrow> \<not> L b a \<le> 0"
  using consistent_sym [of L a b] by simp

lemma sort_by_sorted:
  assumes L: "consistent L" and res: "sort_by (compare_id L) xs = Inr ys"
  shows "sorted_wrt (\<lambda>x y. L (id_key x) (id_key y) \<le> 0) ys"
proof (rule sort_by_sorted_generic [of _ "compare_id L", OF _ _ res])
  fix x y z
  assume "L (id_key x) (id_key y) \<le> 0" "L (id_key y) (id_key z) \<le> 0"
  then show "L (id_key x) (id_key z) \<le> 0" by (rule consistent_trans [OF L])
next
  fix x y n
  assume "compare_id L x y = Inr n"
  then have n: "n = L (id_key x) (id_key y)" by (rule compare_id_Inr)
  show "if n < 0 then L (id_key x) (id_key y) \<le> 0 else L (id_key y) (id_key x) \<le> 0"
  proof (cases "n < 0")
    case True
    with n show ?thesis by simp
  next
    case False
    with n consistent_flip [OF L, of "id_key x" "id_key y"] show ?thesis by simp
  qed
qed

section \<open>The sample comparison is consistent\<close>

lemma codeunit_compare_sym: "(codeunit_compare a b < 0) = (0 < codeunit_compare b a)"
  by (induction a b rule: codeunit_compare.induct) auto

lemma codeunit_compare_trans:
  "codeunit_compare a b \<le> 0 \<Longrightarrow> codeunit_compare b c \<le> 0 \<Longrightarrow> codeunit_compare a c \<le> 0"
proof (induction a b arbitrary: c rule: codeunit_compare.induct)
  case 1
  then show ?case by simp
next
  case (2 y ys)
  then show ?case by (cases c) simp_all
next
  case (3 x xs)
  then show ?case by simp
next
  case (4 x xs y ys)
  show ?case
  proof (cases c)
    case Nil
    with "4.prems" show ?thesis by simp
  next
    case (Cons z zs)
    show ?thesis
    proof (cases "(of_char x :: nat) < of_char y")
      case True
      with "4.prems" Cons show ?thesis by (auto split: if_splits)
    next
      case False
      with "4.prems"(1) have xy: "(of_char x :: nat) = of_char y" and r: "codeunit_compare xs ys \<le> 0"
        by (simp_all split: if_splits)
      show ?thesis
      proof (cases "(of_char y :: nat) < of_char z")
        case True
        with xy Cons show ?thesis by auto
      next
        case yz: False
        with "4.prems"(2) Cons have yz': "(of_char y :: nat) = of_char z"
          and r': "codeunit_compare ys zs \<le> 0"
          by (simp_all split: if_splits)
        from xy have "\<not> (of_char x :: nat) < of_char y" "\<not> (of_char y :: nat) < of_char x" by simp_all
        from "4.IH" [OF this r r'] have "codeunit_compare xs zs \<le> 0" .
        with xy yz' Cons show ?thesis by simp
      qed
    qed
  qed
qed

lemma consistent_sample_localeCompare: "consistent sample_localeCompare"
  unfolding consistent_def sample_localeCompare_def
  using codeunit_compare_sym codeunit_compare_trans by blast

section \<open>Loading\<close>

lemma get_prop_opt_prop:
  "m \<noteq> JUndefined \<Longrightarrow> m \<noteq> JNull \<Longrightarrow> get_prop m k = Inr (opt_prop m k)"
  by (cases m) (simp_all add: opt_prop_def)

lemma has_string_id_defined: "has_string_id m \<Longrightarrow> m \<noteq> JUndefined \<and> m \<noteq> JNull"
  by (auto simp: has_string_id_def)

lemma name_text_Inr:
  "name_text m = Inr s \<Longrightarrow> \<exists>nm. get_prop m ''name'' = Inr nm \<and> ToString nm = Inr s"
  by (auto simp: name_text_def and_then_def split: sum.splits)

lemma load_modes_ok:
  "map (parse_file P d) files = map Inr ms \<Longrightarrow> map name_text ms = map Inr names \<Longrightarrow>
   load_modes P d files = (Inr ms, map (\<lambda>s. ''Added: '' @ s) names)"
proof (induction files arbitrary: ms names)
  case Nil
  then show ?case by simp
next
  case (Cons f files)
  from Cons.prems(1) obtain m ms' where ms: "ms = m # ms'"
    and m: "parse_file P d f = Inr m" and rest: "map (parse_file P d) files = map Inr ms'"
    by (cases ms) auto
  from Cons.prems(2) ms obtain s names' where names: "names = s # names'"
    and s: "name_text m = Inr s" and rest': "map name_text ms' = map Inr names'"
    by (cases names) auto
  from name_text_Inr [OF s] obtain nm where nm: "get_prop m ''name'' = Inr nm"
    and str: "ToString nm = Inr s" by blast
  from Cons.IH [OF rest rest'] m nm str ms names show ?case by simp
qed

lemma load_modes_stop:
  "map (parse_file P d) pre = map Inr ms \<Longrightarrow> map name_text ms = map Inr names \<Longrightarrow>
   parse_file P d f = Inl e \<Longrightarrow>
   load_modes P d (pre @ f # post) = (Inl e, map (\<lambda>s. ''Added: '' @ s) names)"
proof (induction pre arbitrary: ms names)
  case Nil
  then show ?case by simp
next
  case (Cons g pre)
  from Cons.prems(1) obtain m ms' where ms: "ms = m # ms'"
    and m: "parse_file P d g = Inr m" and rest: "map (parse_file P d) pre = map Inr ms'"
    by (cases ms) auto
  from Cons.prems(2) ms obtain s names' where names: "names = s # names'"
    and s: "name_text m = Inr s" and rest': "map name_text ms' = map Inr names'"
    by (cases names) auto
  from name_text_Inr [OF s] obtain nm where nm: "get_prop m ''name'' = Inr nm"
    and str: "ToString nm = Inr s" by blast
  from Cons.IH [OF rest rest' Cons.prems(3)] m nm str ms names show ?case by simp
qed

lemma load_modes_fail:
  "f \<in> set files \<Longrightarrow>
   (\<exists>e. parse_file P d f = Inl e) \<or>
   (\<exists>v. parse_file P d f = Inr v \<and> get_prop v ''name'' = Inl TypeError) \<Longrightarrow>
   \<exists>e out. load_modes P d files = (Inl e, out)"
proof (induction files)
  case Nil
  then show ?case by simp
next
  case (Cons g files)
  show ?case
  proof (cases "f = g")
    case True
    with Cons.prems(2) show ?thesis by auto
  next
    case False
    with Cons.prems have "f \<in> set files" by simp
    from Cons.IH [OF this Cons.prems(2)] obtain e out where
      "load_modes P d files = (Inl e, out)" by blast
    then show ?thesis by (simp split: sum.splits)
  qed
qed

lemma load_modes_origin:
  "load_modes P d files = (Inr ms, out) \<Longrightarrow>
   list_all2 (\<lambda>f m. parse_file P d f = Inr m) files ms"
proof (induction files arbitrary: ms out)
  case Nil
  then show ?case by simp
next
  case (Cons f files)
  from Cons.prems obtain m ms' out' where "parse_file P d f = Inr m"
    and "load_modes P d files = (Inr ms', out')" and "ms = m # ms'"
    by (auto split: sum.splits prod.splits)
  with Cons.IH show ?case by simp
qed

section \<open>Further facts about a run\<close>

lemma names_without:
  "filter (\<lambda>g. g \<noteq> f) (map fst d) = map fst (filter (\<lambda>(g, c). g \<noteq> f) d)"
  by (induction d) auto

lemma map_of_without:
  "g \<noteq> f \<Longrightarrow> map_of (filter (\<lambda>(g, c). g \<noteq> f) d) g = map_of d g"
  by (induction d) auto

lemma items_writes:
  "generate P L S d = (Inr its, out, d') \<Longrightarrow>
   fst (items P L d) = Inr its \<and> d' = writeFileSync d ''marketplace.yaml'' (output_text S its)"
  by (auto simp: generate_def split: prod.splits sum.splits)

lemma opt_id_key: "opt_prop v ''id'' = JStr a \<Longrightarrow> id_key v = a"
  by (simp add: id_key_def)

lemma list_all2_source: "list_all2 R xs ys \<Longrightarrow> y \<in> set ys \<Longrightarrow> \<exists>x\<in>set xs. R x y"
  by (induction rule: list_all2_induct) auto

section \<open>The write, moment by moment\<close>

lemma writeFileSync_contents_set:
  "set (writeFileSync_contents x) = {take n x |n. n \<le> length x}"
  by (auto simp: writeFileSync_contents_def less_Suc_eq_le simp del: upt_Suc)

lemma writeFileSync_contents_last: "last (writeFileSync_contents x) = x"
  by (simp add: writeFileSync_contents_def last_map del: upt_Suc)

lemma writeFileSync_contents_nonempty: "writeFileSync_contents x \<noteq> []"
  by (simp add: writeFileSync_contents_def)

lemma generate_fst: "fst (generate P L S d) = fst (items P L d)"
  by (simp add: generate_def split: prod.splits sum.splits)

lemma sample_modes_items:
  "fst (items sample_parse sample_localeCompare sample_modes) =
     Inr [JObj [(''id'', JStr ''architect''), (''name'', JStr ''Architect'')],
          JObj [(''id'', JStr ''code''), (''name'', JStr ''Code'')]]"
  by (simp add: sample_defs sample_modes_def)

lemma sample_modes_output:
  "output_text sample_toString
     [JObj [(''id'', JStr ''architect''), (''name'', JStr ''Architect'')],
      JObj [(''id'', JStr ''code''), (''name'', JStr ''Code'')]] =
   ''items:\<newline>  - id: architect\<newline>    name: Architect\<newline>  - id: code\<newline>    name: Code\<newline>''"
  by (simp add: output_text_def sample_toString_def)

lemma sample_modes_truncated:
  "Some ''items:\<newline>  - id: arch'' \<in>
     set (marketplace_contents sample_parse sample_localeCompare sample_toString sample_modes)"
proof -
  have "''items:\<newline>  - id: arch'' =
        take 19 ''items:\<newline>  - id: architect\<newline>    name: Architect\<newline>  - id: code\<newline>    name: Code\<newline>''"
    by simp
  moreover have "(19::nat) \<le> length ''items:\<newline>  - id: architect\<newline>    name: Architect\<newline>  - id: code\<newline>    name: Code\<newline>''"
    by simp
  ultimately have "''items:\<newline>  - id: arch'' \<in> set (writeFileSync_contents
     ''items:\<newline>  - id: architect\<newline>    name: Architect\<newline>  - id: code\<newline>    name: Code\<newline>'')"
    unfolding writeFileSync_contents_set by blast
  then show ?thesis
    by (simp add: marketplace_contents_def sample_modes_items sample_modes_output)
qed

section \<open>The sample run\<close>

lemma sample_modes_generate:
  "generate sample_parse sample_localeCompare sample_toString sample_modes =
     (Inr [JObj [(''id'', JStr ''architect''), (''name'', JStr ''Architect'')],
           JObj [(''id'', JStr ''code''), (''name'', JStr ''Code'')]],
      [''Added: Code'', ''Added: Architect'',
       ''\<newline>Generated marketplace.yaml with 2 modes''],
      snd (snd (generate sample_parse sample_localeCompare sample_toString sample_modes)))"
  by (simp add: sample_defs sample_modes_def)

section \<open>Claims about \<^verbatim>\<open>bin/generate-modes-marketplace.ts\<close>\<close>

text \<open>
  C1, as the script behaves. The script has no check for duplicate ids and raises no error
  for them. Whenever every file it reads parses to an entry with a string \<^verbatim>\<open>id\<close> and a
  \<^verbatim>\<open>name\<close> that line 23 can print, two entries with the same \<^verbatim>\<open>id\<close> included, the run
  succeeds, writes the aggregate document, and the document holds every entry that was
  read, as many times as it was read: none is dropped.
\<close>

theorem duplicate_ids_kept:
  assumes "map (parse_file P d) (mode_files d) = map Inr ms"
    and "\<forall>m\<in>set ms. has_string_id m"
    and "map name_text ms = map Inr names"
  shows "\<exists>its out.
           generate P L S d =
             (Inr its, out, writeFileSync d ''marketplace.yaml'' (output_text S its)) \<and>
           mset its = mset ms"
proof -
  from load_modes_ok [OF assms(1) assms(3)] obtain out where
    ld: "load_modes P d (mode_files d) = (Inr ms, out)" by blast
  from sort_by_ok [OF assms(2)] obtain its where its: "sort_by (compare_id L) ms = Inr its"
    by blast
  from its have "mset its = mset ms" by (rule sort_by_mset)
  with ld its show ?thesis by (simp add: generate_def items_def)
qed

theorem duplicate_ids_kept_witness:
  "\<exists>its out.
     generate sample_parse sample_localeCompare sample_toString sample_duplicates =
       (Inr its, out,
        writeFileSync sample_duplicates ''marketplace.yaml'' (output_text sample_toString its)) \<and>
     mset its = mset [JObj [(''id'', JStr ''dup''), (''name'', JStr ''First'')],
                      JObj [(''id'', JStr ''dup''), (''name'', JStr ''Second'')]]"
proof -
  have "map (parse_file sample_parse sample_duplicates) (mode_files sample_duplicates) =
        map Inr [JObj [(''id'', JStr ''dup''), (''name'', JStr ''First'')],
                 JObj [(''id'', JStr ''dup''), (''name'', JStr ''Second'')]]"
    by (simp add: sample_duplicates_def mode_files_def readdirSync_def endsWith_def
        parse_file_def readFileSync_def sample_parse_def)
  moreover have "\<forall>m\<in>set [JObj [(''id'', JStr ''dup''), (''name'', JStr ''First'')],
                 JObj [(''id'', JStr ''dup''), (''name'', JStr ''Second'')]]. has_string_id m"
    by (simp add: has_string_id_def)
  moreover have "map name_text [JObj [(''id'', JStr ''dup''), (''name'', JStr ''First'')],
                 JObj [(''id'', JStr ''dup''), (''name'', JStr ''Second'')]] =
        map Inr [''First'', ''Second'']"
    by (simp add: name_text_def and_then_def)
  ultimately show ?thesis by (rule duplicate_ids_kept)
qed

text \<open>
  Two mode files with \<^verbatim>\<open>id: dup\<close>: the run ends without an exception, both entries are in
  the document, in listing order, and the document is written.
\<close>

theorem duplicate_id_counterexample:
  "generate sample_parse sample_localeCompare sample_toString sample_duplicates =
     (Inr [JObj [(''id'', JStr ''dup''), (''name'', JStr ''First'')],
           JObj [(''id'', JStr ''dup''), (''name'', JStr ''Second'')]],
      [''Added: First'', ''Added: Second'', ''\<newline>Generated marketplace.yaml with 2 modes''],
      [(''a.yaml'', ''id: dup\<newline>name: First\<newline>''),
       (''b.yaml'', ''id: dup\<newline>name: Second\<newline>''),
       (''marketplace.yaml'',
        ''items:\<newline>  - id: dup\<newline>    name: First\<newline>  - id: dup\<newline>    name: Second\<newline>'')])"
  by (simp add: sample_defs sample_duplicates_def)

text \<open>
  C2, as the script behaves. A file that cannot be parsed is not skipped: the parser's
  exception is not caught. When the files listed before it were read, parsed and announced
  without an exception, the run ends with that exception, the console holds the
  announcements of those earlier files and nothing else (no warning, no summary), and the
  directory is as it was: no aggregate document is made from the other files.
\<close>

theorem parse_failure_aborts:
  assumes "mode_files d = pre @ f # post"
    and "map (parse_file P d) pre = map Inr ms"
    and "map name_text ms = map Inr names"
    and "parse_file P d f = Inl e"
  shows "generate P L S d = (Inl e, map (\<lambda>s. ''Added: '' @ s) names, d)"
  using load_modes_stop [OF assms(2,3,4), of post]
  by (simp add: generate_def items_def assms(1))

theorem parse_failure_aborts_witness:
  "generate sample_parse sample_localeCompare sample_toString sample_broken =
     (Inl YAMLParseError, [''Added: Architect''], sample_broken)"
  using parse_failure_aborts [of sample_broken "[''architect.yaml'']" "''broken.yaml''"
      "[''code.yaml'']" sample_parse
      "[JObj [(''id'', JStr ''architect''), (''name'', JStr ''Architect'')]]"
      "[''Architect'']" YAMLParseError sample_localeCompare sample_toString]
  by (simp add: sample_broken_def mode_files_def readdirSync_def endsWith_def parse_file_def
      readFileSync_def sample_parse_def name_text_def and_then_def)

text \<open>
  A directory with two good mode files and one that does not parse: the run fails, and
  \<^verbatim>\<open>marketplace.yaml\<close> still has its previous content instead of the two good entries.
\<close>

theorem parse_failure_counterexample:
  "fst (generate sample_parse sample_localeCompare sample_toString sample_broken) = Inl YAMLParseError \<and>
   snd (snd (generate sample_parse sample_localeCompare sample_toString sample_broken)) = sample_broken \<and>
   readFileSync sample_broken ''marketplace.yaml'' = Inr ''items: []\<newline>''"
  by (simp add: sample_defs sample_broken_def)

text \<open>
  C3, as the script behaves. The document is overwritten in place by one
  \<^verbatim>\<open>fs.writeFileSync\<close>; there is no temporary file and no rename. At every moment of a run
  the file at the output location is either what it was before the run, or a prefix of the
  new document: empty right after the truncation, growing, and complete once the write has
  finished. An interruption in between leaves a truncated document.
\<close>

theorem write_in_place:
  "(\<forall>s\<in>set (marketplace_contents P L S d).
      s = map_of d ''marketplace.yaml'' \<or>
      (\<exists>its n. fst (items P L d) = Inr its \<and> n \<le> length (output_text S its) \<and>
         s = Some (take n (output_text S its)))) \<and>
   (\<forall>its. fst (items P L d) = Inr its \<longrightarrow>
      last (marketplace_contents P L S d) = Some (output_text S its))"
proof (cases "fst (items P L d)")
  case (Inl e)
  then show ?thesis by (simp add: marketplace_contents_def)
next
  case (Inr its)
  then show ?thesis
    by (auto simp: marketplace_contents_def writeFileSync_contents_set
        writeFileSync_contents_last writeFileSync_contents_nonempty last_map)
qed

theorem write_in_place_witness:
  "\<exists>its n. fst (items sample_parse sample_localeCompare sample_modes) = Inr its \<and>
      n \<le> length (output_text sample_toString its) \<and>
      Some ''items:\<newline>  - id: arch'' = Some (take n (output_text sample_toString its))"
proof -
  have "Some ''items:\<newline>  - id: arch'' \<noteq> map_of sample_modes ''marketplace.yaml''"
    by (simp add: sample_modes_def)
  with write_in_place [of sample_parse sample_localeCompare sample_toString sample_modes]
    sample_modes_truncated
  show ?thesis by blast
qed

text \<open>
  A run that succeeds, over a directory with a previous document: nineteen bytes into the
  write, the file is neither the old document nor the new one.
\<close>

theorem truncated_manifest_counterexample:
  "Some ''items:\<newline>  - id: arch'' \<in>
     set (marketplace_contents sample_parse sample_localeCompare sample_toString sample_modes) \<and>
   Some ''items:\<newline>  - id: arch'' \<noteq> map_of sample_modes ''marketplace.yaml'' \<and>
   Some ''items:\<newline>  - id: arch'' \<noteq>
     Some (output_text sample_toString
       [JObj [(''id'', JStr ''architect''), (''name'', JStr ''Architect'')],
        JObj [(''id'', JStr ''code''), (''name'', JStr ''Code'')]]) \<and>
   fst (generate sample_parse sample_localeCompare sample_toString sample_modes) =
     Inr [JObj [(''id'', JStr ''architect''), (''name'', JStr ''Architect'')],
          JObj [(''id'', JStr ''code''), (''name'', JStr ''Code'')]]"
proof -
  have "map_of sample_modes ''marketplace.yaml'' = Some ''items: []\<newline>''"
    by (simp add: sample_modes_def)
  with sample_modes_truncated sample_modes_items show ?thesis
    by (simp add: sample_modes_output generate_fst)
qed

text \<open>
  C4, as the script behaves. In every document the builder writes, the entries are in
  ascending order of their \<^verbatim>\<open>id\<close> in the order that \<^verbatim>\<open>localeCompare\<close> computes, the
  collation of the locale, which is not the lexicographic order of the character codes:
  the written document is the rendering of \<^verbatim>\<open>{ items }\<close>, the sequence is sorted, and of
  two entries with string ids the one whose \<^verbatim>\<open>id\<close> \<^verbatim>\<open>localeCompare\<close> puts before the
  other's comes first, whatever the listing order of the files was.
\<close>

theorem items_sorted_by_id:
  assumes "consistent L" and "generate P L S d = (Inr its, out, d')"
  shows "readFileSync d' ''marketplace.yaml'' = Inr (S 120 (JObj [(''items'', JArr its [])])) \<and>
         sorted_wrt (\<lambda>x y. L (id_key x) (id_key y) \<le> 0) its \<and>
         (\<forall>i j a b. i < length its \<and> j < length its \<and>
             opt_prop (its ! i) ''id'' = JStr a \<and> opt_prop (its ! j) ''id'' = JStr b \<and>
             L a b < 0 \<longrightarrow> i < j)"
proof -
  from items_writes [OF assms(2)] have its: "fst (items P L d) = Inr its"
    and d': "d' = writeFileSync d ''marketplace.yaml'' (output_text S its)" by simp_all
  from d' have written:
    "readFileSync d' ''marketplace.yaml'' = Inr (S 120 (JObj [(''items'', JArr its [])]))"
    by (simp add: readFileSync_def map_of_writeFileSync_same output_text_def)
  from its obtain ms where "sort_by (compare_id L) ms = Inr its"
    by (auto simp: items_def split: prod.splits sum.splits)
  then have sorted: "sorted_wrt (\<lambda>x y. L (id_key x) (id_key y) \<le> 0) its"
    by (rule sort_by_sorted [OF assms(1)])
  have "i < j" if ij: "i < length its" "j < length its"
    and a: "opt_prop (its ! i) ''id'' = JStr a" and b: "opt_prop (its ! j) ''id'' = JStr b"
    and lt: "L a b < 0" for i j a b
  proof (rule ccontr)
    assume "\<not> i < j"
    then consider "j < i" | "j = i" by linarith
    then show False
    proof cases
      case 1
      with sorted ij have "L (id_key (its ! j)) (id_key (its ! i)) \<le> 0"
        by (simp add: sorted_wrt_iff_nth_less)
      with a b have "L b a \<le> 0" by (simp add: opt_id_key)
      with consistent_strict [OF assms(1) lt] show False by simp
    next
      case 2
      with a b have "a = b" by simp
      with lt consistent_sym [OF assms(1), of a a] show False by simp
    qed
  qed
  with written sorted show ?thesis by blast
qed

theorem items_sorted_by_id_witness:
  "readFileSync (snd (snd (generate sample_parse sample_localeCompare sample_toString sample_modes)))
     ''marketplace.yaml'' =
     Inr (sample_toString 120 (JObj [(''items'',
       JArr [JObj [(''id'', JStr ''architect''), (''name'', JStr ''Architect'')],
             JObj [(''id'', JStr ''code''), (''name'', JStr ''Code'')]] [])])) \<and>
   sorted_wrt (\<lambda>x y. sample_localeCompare (id_key x) (id_key y) \<le> 0)
     [JObj [(''id'', JStr ''architect''), (''name'', JStr ''Architect'')],
      JObj [(''id'', JStr ''code''), (''name'', JStr ''Code'')]]"
  using items_sorted_by_id [OF consistent_sample_localeCompare sample_modes_generate] by blast

text \<open>
  The ids \<^verbatim>\<open>apple\<close> and \<^verbatim>\<open>Zebra\<close>: by character code \<^verbatim>\<open>Zebra\<close> precedes
  \<^verbatim>\<open>apple\<close>, and the document has \<^verbatim>\<open>apple\<close> first.
\<close>

theorem lexicographic_order_counterexample:
  "codeunit_compare ''Zebra'' ''apple'' < 0 \<and>
   generate sample_parse sample_localeCompare sample_toString sample_mixed_case =
     (Inr [JObj [(''id'', JStr ''apple''), (''name'', JStr ''Apple'')],
           JObj [(''id'', JStr ''Zebra''), (''name'', JStr ''Zebra'')]],
      [''Added: Apple'', ''Added: Zebra'', ''\<newline>Generated marketplace.yaml with 2 modes''],
      [(''apple.yaml'', ''id: apple\<newline>name: Apple\<newline>''),
       (''zebra.yaml'', ''id: Zebra\<newline>name: Zebra\<newline>''),
       (''marketplace.yaml'',
        ''items:\<newline>  - id: apple\<newline>    name: Apple\<newline>  - id: Zebra\<newline>    name: Zebra\<newline>'')])"
  by (simp add: sample_defs sample_mixed_case_def)

text \<open>
  C5. Running the builder a second time, on the directory the first run left and with the
  mode files unchanged, gives the same entries, the same console output and the same
  directory: the aggregate document written the second time is byte for byte the one
  written the first time.
\<close>

theorem generate_twice:
  "generate P L S (snd (snd (generate P L S d))) = generate P L S d"
proof (cases "items P L d")
  case (Pair r out)
  show ?thesis
  proof (cases r)
    case (Inl e)
    with Pair show ?thesis by (simp add: generate_def)
  next
    case (Inr its)
    with Pair show ?thesis
      by (simp add: generate_def items_writeFileSync writeFileSync_again)
  qed
qed

theorem generate_twice_witness:
  "readFileSync
     (snd (snd (generate sample_parse sample_localeCompare sample_toString
        (snd (snd (generate sample_parse sample_localeCompare sample_toString sample_modes))))))
     ''marketplace.yaml'' =
   Inr ''items:\<newline>  - id: architect\<newline>    name: Architect\<newline>  - id: code\<newline>    name: Code\<newline>''"
proof -
  have "readFileSync
     (snd (snd (generate sample_parse sample_localeCompare sample_toString
        (snd (snd (generate sample_parse sample_localeCompare sample_toString sample_modes))))))
     ''marketplace.yaml'' =
     readFileSync
       (snd (snd (generate sample_parse sample_localeCompare sample_toString sample_modes)))
       ''marketplace.yaml''"
    by (simp only: generate_twice)
  also have "\<dots> = Inr ''items:\<newline>  - id: architect\<newline>    name: Architect\<newline>  - id: code\<newline>    name: Code\<newline>''"
    by (simp add: sample_defs sample_modes_def)
  finally show ?thesis .
qed

text \<open>
  C6. What the builder produces does not depend on the aggregate document that was at the
  output location before: two directories that agree on every file other than
  \<^verbatim>\<open>marketplace.yaml\<close> give the same entries or the same exception, the same console
  output, and, when the run succeeds, the same document at the output location.
\<close>

theorem previous_manifest_irrelevant:
  assumes "filter (\<lambda>(f, c). f \<noteq> ''marketplace.yaml'') d1 =
           filter (\<lambda>(f, c). f \<noteq> ''marketplace.yaml'') d2"
  shows "fst (generate P L S d1) = fst (generate P L S d2) \<and>
         fst (snd (generate P L S d1)) = fst (snd (generate P L S d2)) \<and>
         (\<forall>its. fst (generate P L S d1) = Inr its \<longrightarrow>
            readFileSync (snd (snd (generate P L S d1))) ''marketplace.yaml'' =
              Inr (output_text S its) \<and>
            readFileSync (snd (snd (generate P L S d2))) ''marketplace.yaml'' =
              Inr (output_text S its))"
proof -
  have "mode_files d1 = mode_files d2"
    by (simp only: mode_files_via_others names_without assms)
  moreover have "map_of d1 f = map_of d2 f" if "f \<noteq> ''marketplace.yaml''" for f
    using map_of_without [OF that, of d1] map_of_without [OF that, of d2] assms by simp
  ultimately have eq: "items P L d1 = items P L d2" by (rule items_cong)
  show ?thesis
  proof (cases "items P L d2")
    case (Pair r out)
    with eq show ?thesis
      by (cases r) (simp_all add: generate_def readFileSync_def map_of_writeFileSync_same)
  qed
qed

theorem previous_manifest_irrelevant_witness:
  "fst (generate sample_parse sample_localeCompare sample_toString sample_modes) =
   fst (generate sample_parse sample_localeCompare sample_toString sample_stale)"
  using previous_manifest_irrelevant [of sample_modes sample_stale
          sample_parse sample_localeCompare sample_toString]
  by (simp add: sample_modes_def sample_stale_def)

text \<open>
  C9. The files the builder reads are the listed files whose name ends in \<^verbatim>\<open>.yaml\<close> and
  is not \<^verbatim>\<open>marketplace.yaml\<close>, and every entry of a document it writes is the parsed
  content of such a file: no entry comes from the aggregate document.
\<close>

theorem entries_from_mode_files:
  "set (mode_files d) =
     {file \<in> set (readdirSync d). endsWith file ''.yaml'' \<and> file \<noteq> ''marketplace.yaml''} \<and>
   (\<forall>its out d'. generate P L S d = (Inr its, out, d') \<longrightarrow>
      (\<forall>m\<in>set its. \<exists>file content. (file, content) \<in> set d \<and> endsWith file ''.yaml'' \<and>
          file \<noteq> ''marketplace.yaml'' \<and> P content = Inr m))"
proof -
  have files: "set (mode_files d) =
     {file \<in> set (readdirSync d). endsWith file ''.yaml'' \<and> file \<noteq> ''marketplace.yaml''}"
    by (simp add: mode_files_def)
  have "\<exists>file content. (file, content) \<in> set d \<and> endsWith file ''.yaml'' \<and>
          file \<noteq> ''marketplace.yaml'' \<and> P content = Inr m"
    if gen: "generate P L S d = (Inr its, out, d')" and m: "m \<in> set its" for its out d' m
  proof -
    from items_writes [OF gen] obtain ms out' where
      ld: "load_modes P d (mode_files d) = (Inr ms, out')"
      and srt: "sort_by (compare_id L) ms = Inr its"
      by (auto simp: items_def split: prod.splits sum.splits)
    from srt have "set its = set ms" by (metis sort_by_mset set_mset_mset)
    with m have "m \<in> set ms" by simp
    from list_all2_source [OF load_modes_origin [OF ld] this] obtain g where
      mem: "g \<in> set (mode_files d)" and p: "parse_file P d g = Inr m"
      by blast
    from p obtain content where c: "map_of d g = Some content" and pc: "P content = Inr m"
      by (auto simp: parse_file_def readFileSync_def split: option.splits)
    from c have "(g, content) \<in> set d" by (rule map_of_SomeD)
    with mem pc show ?thesis by (auto simp: mode_files_def)
  qed
  with files show ?thesis by blast
qed

theorem entries_from_mode_files_witness:
  "(\<exists>file content. (file, content) \<in> set sample_modes \<and> endsWith file ''.yaml'' \<and>
       file \<noteq> ''marketplace.yaml'' \<and>
       sample_parse content =
         Inr (JObj [(''id'', JStr ''architect''), (''name'', JStr ''Architect'')])) \<and>
   (\<exists>file content. (file, content) \<in> set sample_modes \<and> endsWith file ''.yaml'' \<and>
       file \<noteq> ''marketplace.yaml'' \<and>
       sample_parse content = Inr (JObj [(''id'', JStr ''code''), (''name'', JStr ''Code'')]))"
proof -
  from entries_from_mode_files [of sample_modes sample_parse sample_localeCompare sample_toString]
    sample_modes_generate
  have "\<forall>m\<in>set [JObj [(''id'', JStr ''architect''), (''name'', JStr ''Architect'')],
            JObj [(''id'', JStr ''code''), (''name'', JStr ''Code'')]].
     \<exists>file content. (file, content) \<in> set sample_modes \<and> endsWith file ''.yaml'' \<and>
       file \<noteq> ''marketplace.yaml'' \<and> sample_parse content = Inr m"
    by blast
  then show ?thesis by simp
qed

text \<open>
  C10. If one of the files the builder reads fails to parse, or parses to a value whose
  \<^verbatim>\<open>name\<close> or \<^verbatim>\<open>id\<close> cannot be read (\<^verbatim>\<open>null\<close>, as for an empty file), the run ends
  with an exception before line 31, and the directory, the previous aggregate document
  included, is unchanged.
\<close>

theorem unusable_file_aborts:
  assumes "f \<in> set (mode_files d)"
    and "(\<exists>e. parse_file P d f = Inl e) \<or>
         (\<exists>v. parse_file P d f = Inr v \<and>
              (get_prop v ''name'' = Inl TypeError \<or> get_prop v ''id'' = Inl TypeError))"
  shows "\<exists>e out. generate P L S d = (Inl e, out, d)"
proof -
  have "\<And>v. get_prop v ''id'' = Inl TypeError \<Longrightarrow> get_prop v ''name'' = Inl TypeError"
    subgoal for v by (cases v) simp_all
    done
  with assms(2) have "(\<exists>e. parse_file P d f = Inl e) \<or>
     (\<exists>v. parse_file P d f = Inr v \<and> get_prop v ''name'' = Inl TypeError)" by blast
  from load_modes_fail [OF assms(1) this] obtain e out where
    "load_modes P d (mode_files d) = (Inl e, out)" by blast
  then show ?thesis by (simp add: generate_def items_def)
qed

theorem unusable_file_aborts_witness:
  "\<exists>e out. generate sample_parse sample_localeCompare sample_toString sample_empty =
     (Inl e, out, sample_empty)"
proof -
  have "''empty.yaml'' \<in> set (mode_files sample_empty)"
    by (simp add: sample_empty_def mode_files_def readdirSync_def endsWith_def)
  moreover have "parse_file sample_parse sample_empty ''empty.yaml'' = Inr JNull"
    by (simp add: sample_empty_def parse_file_def readFileSync_def sample_parse_def)
  ultimately show ?thesis
    using unusable_file_aborts [of "''empty.yaml''" sample_empty sample_parse] by simp
qed

section \<open>Claims about \<^verbatim>\<open>bin/update-skills.ts\<close>\<close>

text \<open>
  C8, at an upstream document whose \<^verbatim>\<open>metadata\<close> is a sequence. The step completes, and
  the pair of \<^verbatim>\<open>repository\<close> and \<^verbatim>\<open>path\<close> of the skill's synchronization request is
  attached to the sequence as a named property, next to its elements (as is the category
  carried over from the local record). A YAML sequence has elements only: the
  \<^verbatim>\<open>SKILL.md\<close> that line 188 renders from this value has no \<^verbatim>\<open>metadata.source\<close>.
\<close>

theorem source_on_sequence_metadata:
  "reapply_source sample_matter sample_skill sample_upstream =
     Inr (''Body\<newline>'',
          JObj [(''name'', JStr ''pdf''),
                (''metadata'',
                 JArr [JStr ''a'', JStr ''b'']
                   [(''category'', JStr ''tools''),
                    (''source'',
                     JObj [(''repository'', JStr ''https://github.com/anthropics/skills''),
                           (''path'', JStr ''skills/pdf'')])])])"
  by (simp add: reapply_source_def sample_matter_def sample_skill_def and_then_def
      set_metadata_prop_def opt_prop_def)

end
